theory Spec2Isabelle
  imports Main
begin

section \<open>JavaScript values and the built-ins the node editor calls\<close>

text \<open>
  The node editor (\<^verbatim>\<open>normalizeNodeData\<close>, \<^verbatim>\<open>applyEditToJson\<close>) works on the values
  that \<^verbatim>\<open>JSON.parse\<close> produces and on the texts that \<^verbatim>\<open>JSON.stringify\<close> renders.
  The scope of the model of the JavaScript built-ins:
  \<^item> a string is a list of 8-bit code units (\<^typ>\<open>string\<close>); code units above 0xFF
    are not represented, and a \<^verbatim>\<open>\u\<close> escape that denotes one is rejected;
  \<^item> a finite number is an exact decimal \<open>m * 10 ^ e\<close>; binary rounding, overflow,
    underflow and the sign of zero of IEEE doubles are not modelled;
  \<^item> an object is the list of its own properties in JavaScript's property order
    (array-index keys ascending, then the other keys in creation order); properties
    inherited from the built-in prototypes (\<^verbatim>\<open>toString\<close>, \<^verbatim>\<open>__proto__\<close>, ...) are not
    modelled: reading a key that is not an own property gives \<^verbatim>\<open>undefined\<close>;
  \<^item> the module is strict-mode code, so assigning a property of a primitive throws.
\<close>

subsection \<open>Decimal digits\<close>

definition is_digit :: "char \<Rightarrow> bool" where
  "is_digit c \<longleftrightarrow> c \<in> set ''0123456789''"

definition digit_val :: "char \<Rightarrow> nat" where
  "digit_val c = of_char c - 48"

definition digit_char :: "nat \<Rightarrow> char" where
  "digit_char d = char_of (48 + d)"

definition nat_of_digits :: "string \<Rightarrow> nat" where
  "nat_of_digits ds = foldl (\<lambda>a c. 10 * a + digit_val c) 0 ds"

fun digits_of_nat :: "nat \<Rightarrow> string" where
  "digits_of_nat n =
     (if n < 10 then [digit_char n] else digits_of_nat (n div 10) @ [digit_char (n mod 10)])"

declare digits_of_nat.simps [simp del]

subsection \<open>Numbers\<close>

text \<open>\<open>Fin m e\<close> is the number \<open>m * 10 ^ e\<close>; \<open>mk_fin\<close> gives its one normal form
  (no factor 10 left in \<open>m\<close>, and \<open>Fin 0 0\<close> for zero), so that equal numbers are equal terms.\<close>

datatype jsnum = NaN | PosInf | NegInf | Fin int int

function strip10 :: "int \<Rightarrow> int \<Rightarrow> int \<times> int" where
  "strip10 m e = (if m = 0 then (0, 0) else if m mod 10 = 0 then strip10 (m div 10) (e + 1) else (m, e))"
  by pat_completeness auto
termination
  by (relation "measure (\<lambda>(m, e). nat \<bar>m\<bar>)") auto

declare strip10.simps [simp del]

definition mk_fin :: "int \<Rightarrow> int \<Rightarrow> jsnum" where
  "mk_fin m e = (case strip10 m e of (m', e') \<Rightarrow> Fin m' e')"

definition num_of_nat :: "nat \<Rightarrow> jsnum" where
  "num_of_nat n = mk_fin (int n) 0"

definition num_neg :: "jsnum \<Rightarrow> jsnum" where
  "num_neg x = (case x of NaN \<Rightarrow> NaN | PosInf \<Rightarrow> NegInf | NegInf \<Rightarrow> PosInf | Fin m e \<Rightarrow> Fin (- m) e)"

text \<open>\<^verbatim>\<open>Number.isNaN\<close>.\<close>

definition isNaN :: "jsnum \<Rightarrow> bool" where
  "isNaN x \<longleftrightarrow> x = NaN"

text \<open>\<^verbatim>\<open>Number::toString\<close> (radix 10) on the digits \<open>s\<close> of the mantissa and the exponent
  \<open>e\<close>: with \<open>k\<close> digits and the decimal point after digit \<open>n = k + e\<close>, plain digits up to
  21 places, a leading \<^verbatim>\<open>0.\<close> down to \<open>1e-6\<close>, the exponent form otherwise.\<close>

definition fin_text :: "string \<Rightarrow> int \<Rightarrow> string" where
  "fin_text s e =
     (let k = int (length s); n = k + e in
      if k \<le> n \<and> n \<le> 21 then s @ replicate (nat (n - k)) (CHR ''0'')
      else if 0 < n \<and> n \<le> 21 then take (nat n) s @ ''.'' @ drop (nat n) s
      else if - 6 < n \<and> n \<le> 0 then ''0.'' @ replicate (nat (- n)) (CHR ''0'') @ s
      else (if k = 1 then s else take 1 s @ ''.'' @ drop 1 s) @ ''e''
             @ (if n - 1 < 0 then ''-'' else ''+'') @ digits_of_nat (nat \<bar>n - 1\<bar>))"

definition num_to_string :: "jsnum \<Rightarrow> string" where
  "num_to_string x =
     (case x of
        NaN \<Rightarrow> ''NaN''
      | PosInf \<Rightarrow> ''Infinity''
      | NegInf \<Rightarrow> ''-Infinity''
      | Fin m e \<Rightarrow>
          if m = 0 then ''0''
          else (if m < 0 then ''-'' else []) @ fin_text (digits_of_nat (nat \<bar>m\<bar>)) e)"

subsection \<open>\<^verbatim>\<open>String.prototype.trim\<close> and \<^verbatim>\<open>toLowerCase\<close>\<close>

text \<open>White space and line terminators of ECMAScript in the 8-bit range: TAB, LF, VT, FF,
  CR, SP and NBSP.\<close>

definition is_space :: "char \<Rightarrow> bool" where
  "is_space c \<longleftrightarrow> c \<in> set [CHR 0x09, CHR 0x0A, CHR 0x0B, CHR 0x0C, CHR 0x0D, CHR 0x20, CHR 0xA0]"

definition trim :: "string \<Rightarrow> string" where
  "trim s = rev (dropWhile is_space (rev (dropWhile is_space s)))"

text \<open>Lower case of one code unit: A-Z, and the Latin-1 capitals 0xC0-0xDE without the
  multiplication sign 0xD7.\<close>

definition lower_char :: "char \<Rightarrow> char" where
  "lower_char c =
     (let n = (of_char c :: nat) in
      if (65 \<le> n \<and> n \<le> 90) \<or> (192 \<le> n \<and> n \<le> 222 \<and> n \<noteq> 215) then char_of (n + 32) else c)"

definition toLowerCase :: "string \<Rightarrow> string" where
  "toLowerCase s = map lower_char s"

subsection \<open>\<^verbatim>\<open>Number(text)\<close>\<close>

definition all_digits :: "string \<Rightarrow> bool" where
  "all_digits ds \<longleftrightarrow> ds \<noteq> [] \<and> list_all is_digit ds"

text \<open>The exponent part of a decimal literal, up to the end of the text: nothing, or
  \<^verbatim>\<open>e\<close>/\<^verbatim>\<open>E\<close>, an optional sign and at least one digit.\<close>

definition exponent_part :: "string \<Rightarrow> int option" where
  "exponent_part r =
     (case r of
        [] \<Rightarrow> Some 0
      | c # t \<Rightarrow>
          if c = CHR ''e'' \<or> c = CHR ''E'' then
            (case t of
               [] \<Rightarrow> None
             | d # u \<Rightarrow>
                 if d = CHR ''+'' then (if all_digits u then Some (int (nat_of_digits u)) else None)
                 else if d = CHR ''-'' then (if all_digits u then Some (- int (nat_of_digits u)) else None)
                 else (if all_digits t then Some (int (nat_of_digits t)) else None))
          else None)"

text \<open>\<^verbatim>\<open>StrUnsignedDecimalLiteral\<close>: \<^verbatim>\<open>Infinity\<close>, or digits with an optional fraction
  (one of the two digit runs may be empty, not both) and an optional exponent.\<close>

definition unsigned_decimal :: "string \<Rightarrow> jsnum" where
  "unsigned_decimal s =
     (if s = ''Infinity'' then PosInf
      else
        let ip = takeWhile is_digit s; r1 = dropWhile is_digit s;
            fp = (case r1 of [] \<Rightarrow> [] | c # t \<Rightarrow> if c = CHR ''.'' then takeWhile is_digit t else []);
            r2 = (case r1 of [] \<Rightarrow> [] | c # t \<Rightarrow> if c = CHR ''.'' then dropWhile is_digit t else r1)
        in if ip = [] \<and> fp = [] then NaN
           else (case exponent_part r2 of
                   None \<Rightarrow> NaN
                 | Some x \<Rightarrow> mk_fin (int (nat_of_digits (ip @ fp))) (x - int (length fp))))"

text \<open>\<^verbatim>\<open>NonDecimalIntegerLiteral\<close>: \<^verbatim>\<open>0x\<close>, \<^verbatim>\<open>0o\<close>, \<^verbatim>\<open>0b\<close> (either case) and at least one
  digit of that base; no sign.\<close>

definition based_digit :: "nat \<Rightarrow> char \<Rightarrow> nat option" where
  "based_digit b c =
     (let n = (of_char c :: nat);
          d = (if 48 \<le> n \<and> n \<le> 57 then Some (n - 48)
               else if 97 \<le> n \<and> n \<le> 102 then Some (n - 87)
               else if 65 \<le> n \<and> n \<le> 70 then Some (n - 55)
               else None)
      in case d of None \<Rightarrow> None | Some v \<Rightarrow> if v < b then Some v else None)"

fun based_value :: "nat \<Rightarrow> nat \<Rightarrow> string \<Rightarrow> nat option" where
  "based_value b acc [] = Some acc"
| "based_value b acc (c # cs) =
     (case based_digit b c of None \<Rightarrow> None | Some d \<Rightarrow> based_value b (b * acc + d) cs)"

definition non_decimal :: "string \<Rightarrow> nat option" where
  "non_decimal s =
     (case s of
        z # p # ds \<Rightarrow>
          if z = CHR ''0'' \<and> ds \<noteq> [] then
            (if p = CHR ''x'' \<or> p = CHR ''X'' then based_value 16 0 ds
             else if p = CHR ''o'' \<or> p = CHR ''O'' then based_value 8 0 ds
             else if p = CHR ''b'' \<or> p = CHR ''B'' then based_value 2 0 ds
             else None)
          else None
      | _ \<Rightarrow> None)"

text \<open>\<^verbatim>\<open>StringToNumber\<close>: trim; the empty text is 0; a non-decimal integer; or a signed
  decimal; everything else is NaN.\<close>

definition Number :: "string \<Rightarrow> jsnum" where
  "Number raw =
     (let s = trim raw in
      if s = [] then Fin 0 0
      else (case non_decimal s of
              Some n \<Rightarrow> num_of_nat n
            | None \<Rightarrow>
                (case s of
                   [] \<Rightarrow> NaN
                 | c # t \<Rightarrow>
                     if c = CHR ''+'' then unsigned_decimal t
                     else if c = CHR ''-'' then num_neg (unsigned_decimal t)
                     else unsigned_decimal s)))"

subsection \<open>Values\<close>

text \<open>\<open>JUndefined\<close> occurs as the result of reading a missing property and as a hole of
  an array; \<open>JObj\<close> lists the own properties in property order.\<close>

datatype jsval =
    JUndefined
  | JNull
  | JBool bool
  | JNum jsnum
  | JStr string
  | JArr "jsval list"
  | JObj "(string \<times> jsval) list"

fun join :: "string \<Rightarrow> string list \<Rightarrow> string" where
  "join sep [] = []"
| "join sep [x] = x"
| "join sep (x # y # ys) = x @ sep @ join sep (y # ys)"

text \<open>\<^verbatim>\<open>ToString\<close>, which a template literal applies to its value. An array is joined
  with commas, \<^verbatim>\<open>null\<close> and \<^verbatim>\<open>undefined\<close> elements giving the empty text.\<close>

fun ToString :: "jsval \<Rightarrow> string" where
  "ToString JUndefined = ''undefined''"
| "ToString JNull = ''null''"
| "ToString (JBool b) = (if b then ''true'' else ''false'')"
| "ToString (JNum x) = num_to_string x"
| "ToString (JStr s) = s"
| "ToString (JArr xs) =
     join '','' (map (\<lambda>x. if x = JUndefined \<or> x = JNull then [] else ToString x) xs)"
| "ToString (JObj kvs) = ''[object Object]''"

text \<open>\<^verbatim>\<open>ToNumber\<close>; an object or array goes through its \<^verbatim>\<open>ToString\<close>.\<close>

definition ToNumber :: "jsval \<Rightarrow> jsnum" where
  "ToNumber v =
     (case v of
        JUndefined \<Rightarrow> NaN
      | JNull \<Rightarrow> Fin 0 0
      | JBool b \<Rightarrow> (if b then Fin 1 0 else Fin 0 0)
      | JNum x \<Rightarrow> x
      | JStr s \<Rightarrow> Number s
      | JArr xs \<Rightarrow> Number (ToString v)
      | JObj kvs \<Rightarrow> Number (ToString v))"

subsection \<open>Own properties\<close>

text \<open>An array index is a key that is the decimal text of a number below \<open>2^32 - 1\<close>,
  with no leading zero.\<close>

definition array_index :: "string \<Rightarrow> nat option" where
  "array_index k =
     (if all_digits k \<and> (k = ''0'' \<or> hd k \<noteq> CHR ''0'') \<and> int (nat_of_digits k) < 4294967295
      then Some (nat_of_digits k) else None)"

fun obj_insert_index :: "nat \<Rightarrow> string \<Rightarrow> jsval \<Rightarrow> (string \<times> jsval) list \<Rightarrow> (string \<times> jsval) list" where
  "obj_insert_index i k v [] = [(k, v)]"
| "obj_insert_index i k v ((k', v') # kvs) =
     (case array_index k' of
        Some j \<Rightarrow> if j < i then (k', v') # obj_insert_index i k v kvs else (k, v) # (k', v') # kvs
      | None \<Rightarrow> (k, v) # (k', v') # kvs)"

text \<open>\<open>obj[k] = v\<close> on an ordinary object: an existing property keeps its place; a new
  array-index key goes among the index keys in ascending order, any other new key at the end.\<close>

definition obj_set :: "(string \<times> jsval) list \<Rightarrow> string \<Rightarrow> jsval \<Rightarrow> (string \<times> jsval) list" where
  "obj_set kvs k v =
     (if k \<in> fst ` set kvs then map (\<lambda>(k', v'). if k' = k then (k', v) else (k', v')) kvs
      else (case array_index k of
              Some i \<Rightarrow> obj_insert_index i k v kvs
            | None \<Rightarrow> kvs @ [(k, v)]))"

datatype exn = TypeError | RangeError

text \<open>\<open>ptr[k]\<close> as a read. \<^verbatim>\<open>null\<close> and \<^verbatim>\<open>undefined\<close> have no properties (TypeError); a
  string has its characters and its length, an array its elements and its length.\<close>

fun getProp :: "jsval \<Rightarrow> string \<Rightarrow> exn + jsval" where
  "getProp JUndefined k = Inl TypeError"
| "getProp JNull k = Inl TypeError"
| "getProp (JBool b) k = Inr JUndefined"
| "getProp (JNum x) k = Inr JUndefined"
| "getProp (JStr s) k =
     (case array_index k of
        Some i \<Rightarrow> Inr (if i < length s then JStr [s ! i] else JUndefined)
      | None \<Rightarrow> Inr (if k = ''length'' then JNum (num_of_nat (length s)) else JUndefined))"
| "getProp (JArr xs) k =
     (case array_index k of
        Some i \<Rightarrow> Inr (if i < length xs then xs ! i else JUndefined)
      | None \<Rightarrow> Inr (if k = ''length'' then JNum (num_of_nat (length xs)) else JUndefined))"
| "getProp (JObj kvs) k = Inr (case map_of kvs k of Some v \<Rightarrow> v | None \<Rightarrow> JUndefined)"

text \<open>\<open>arr.length = v\<close>: the length must be an integer in \<open>[0, 2^32)\<close>, else RangeError; the
  array is cut or extended by holes.\<close>

definition set_length :: "jsval list \<Rightarrow> jsval \<Rightarrow> exn + jsval" where
  "set_length xs v =
     (case ToNumber v of
        Fin m e \<Rightarrow>
          if 0 \<le> m \<and> 0 \<le> e \<and> m * 10 ^ nat e < 4294967296
          then (let n = nat (m * 10 ^ nat e) in
                Inr (JArr (take n xs @ replicate (n - length xs) JUndefined)))
          else Inl RangeError
      | _ \<Rightarrow> Inl RangeError)"

text \<open>\<open>ptr[k] = v\<close> in strict mode. A property of \<^verbatim>\<open>null\<close>, \<^verbatim>\<open>undefined\<close> or a primitive
  cannot be set (TypeError). An array element beyond the end leaves holes before it. Any
  other key of an array becomes a named property, which is no part of the array's JSON
  form; the model leaves the array as it is.\<close>

fun setProp :: "jsval \<Rightarrow> string \<Rightarrow> jsval \<Rightarrow> exn + jsval" where
  "setProp (JArr xs) k v =
     (case array_index k of
        Some i \<Rightarrow>
          Inr (JArr (if i < length xs then xs[i := v]
                     else xs @ replicate (i - length xs) JUndefined @ [v]))
      | None \<Rightarrow> if k = ''length'' then set_length xs v else Inr (JArr xs))"
| "setProp (JObj kvs) k v = Inr (JObj (obj_set kvs k v))"
| "setProp ptr k v = Inl TypeError"

subsection \<open>\<^verbatim>\<open>JSON.stringify(value, null, 2)\<close>\<close>

definition hex_char :: "nat \<Rightarrow> char" where
  "hex_char d = (if d < 10 then char_of (48 + d) else char_of (87 + d))"

text \<open>\<^verbatim>\<open>QuoteJSONString\<close>: the quote 0x22 and the backslash 0x5C are escaped, the control
  characters have their short escape or \<^verbatim>\<open>\u00XX\<close>.\<close>

definition escape_char :: "char \<Rightarrow> string" where
  "escape_char c =
     (if c = CHR 0x22 then [CHR 0x5C, CHR 0x22]
      else if c = CHR 0x5C then [CHR 0x5C, CHR 0x5C]
      else if c = CHR 0x08 then [CHR 0x5C, CHR ''b'']
      else if c = CHR 0x0C then [CHR 0x5C, CHR ''f'']
      else if c = CHR 0x0A then [CHR 0x5C, CHR ''n'']
      else if c = CHR 0x0D then [CHR 0x5C, CHR ''r'']
      else if c = CHR 0x09 then [CHR 0x5C, CHR ''t'']
      else if (of_char c :: nat) < 32
        then [CHR 0x5C, CHR ''u'', CHR ''0'', CHR ''0'',
              hex_char ((of_char c :: nat) div 16), hex_char ((of_char c :: nat) mod 16)]
      else [c])"

definition quote :: "string \<Rightarrow> string" where
  "quote s = CHR 0x22 # concat (map escape_char s) @ [CHR 0x22]"

text \<open>\<^verbatim>\<open>SerializeJSONProperty\<close> at indentation \<open>ind\<close>, with a gap of two spaces. A number
  that is not finite is \<^verbatim>\<open>null\<close>; in an array \<^verbatim>\<open>undefined\<close> is \<^verbatim>\<open>null\<close>; in an object a
  property whose value is \<^verbatim>\<open>undefined\<close> is left out.\<close>

fun ser :: "string \<Rightarrow> jsval \<Rightarrow> string" where
  "ser ind JUndefined = ''null''"
| "ser ind JNull = ''null''"
| "ser ind (JBool b) = (if b then ''true'' else ''false'')"
| "ser ind (JNum x) = (case x of Fin m e \<Rightarrow> num_to_string x | _ \<Rightarrow> ''null'')"
| "ser ind (JStr s) = quote s"
| "ser ind (JArr xs) =
     (if xs = [] then ''[]''
      else ''['' @ [CHR 0x0A] @ (ind @ ''  '')
           @ join ('','' @ [CHR 0x0A] @ (ind @ ''  '')) (map (ser (ind @ ''  '')) xs)
           @ [CHR 0x0A] @ ind @ '']'')"
| "ser ind (JObj kvs) =
     (if filter (\<lambda>kv. snd kv \<noteq> JUndefined) kvs = [] then ''{}''
      else ''{'' @ [CHR 0x0A] @ (ind @ ''  '')
           @ join ('','' @ [CHR 0x0A] @ (ind @ ''  ''))
               (map (\<lambda>kv. quote (fst kv) @ '': '' @ ser (ind @ ''  '') (snd kv))
                  (filter (\<lambda>kv. snd kv \<noteq> JUndefined) kvs))
           @ [CHR 0x0A] @ ind @ ''}'')"

text \<open>\<^verbatim>\<open>JSON.stringify(undefined)\<close> is \<^verbatim>\<open>undefined\<close>, not a text. The stores keep texts, and
  every reader of a stored text converts it with \<^verbatim>\<open>ToString\<close>, so that result is kept in
  its \<^verbatim>\<open>ToString\<close> form, which is no JSON text.\<close>

definition JSON_stringify :: "jsval \<Rightarrow> string" where
  "JSON_stringify v = (if v = JUndefined then ToString JUndefined else ser [] v)"

subsection \<open>\<^verbatim>\<open>JSON.parse\<close>\<close>

definition is_json_ws :: "char \<Rightarrow> bool" where
  "is_json_ws c \<longleftrightarrow> c \<in> set [CHR 0x20, CHR 0x09, CHR 0x0A, CHR 0x0D]"

definition skip_ws :: "string \<Rightarrow> string" where
  "skip_ws s = dropWhile is_json_ws s"

definition unescape :: "char \<Rightarrow> char option" where
  "unescape e =
     (if e = CHR 0x22 then Some (CHR 0x22)
      else if e = CHR 0x5C then Some (CHR 0x5C)
      else if e = CHR ''/'' then Some (CHR ''/'')
      else if e = CHR ''b'' then Some (CHR 0x08)
      else if e = CHR ''f'' then Some (CHR 0x0C)
      else if e = CHR ''n'' then Some (CHR 0x0A)
      else if e = CHR ''r'' then Some (CHR 0x0D)
      else if e = CHR ''t'' then Some (CHR 0x09)
      else None)"

definition hex4 :: "char \<Rightarrow> char \<Rightarrow> char \<Rightarrow> char \<Rightarrow> nat option" where
  "hex4 a b c d = based_value 16 0 [a, b, c, d]"

definition cons_char :: "char \<Rightarrow> (string \<times> string) option \<Rightarrow> (string \<times> string) option" where
  "cons_char c r = (case r of None \<Rightarrow> None | Some (str, rest) \<Rightarrow> Some (c # str, rest))"

text \<open>The characters of a string literal after its opening quote, up to the closing
  quote: the string and the text that follows.\<close>

fun parse_chars :: "string \<Rightarrow> (string \<times> string) option" where
  "parse_chars [] = None"
| "parse_chars (c # cs) =
     (if c = CHR 0x22 then Some ([], cs)
      else if c = CHR 0x5C then
        (case cs of
           [] \<Rightarrow> None
         | e # r \<Rightarrow>
             if e = CHR ''u'' then
               (case r of
                  h1 # h2 # h3 # h4 # r' \<Rightarrow>
                    (case hex4 h1 h2 h3 h4 of
                       None \<Rightarrow> None
                     | Some n \<Rightarrow> if n < 256 then cons_char (char_of n) (parse_chars r') else None)
                | _ \<Rightarrow> None)
             else (case unescape e of None \<Rightarrow> None | Some x \<Rightarrow> cons_char x (parse_chars r)))
      else if (of_char c :: nat) < 32 then None
      else cons_char c (parse_chars cs))"

text \<open>A JSON number: an optional minus, \<^verbatim>\<open>0\<close> or digits without a leading zero, an
  optional fraction with at least one digit, an optional exponent with at least one digit.
  Each part gives what it read and the text that follows.\<close>

definition int_part :: "string \<Rightarrow> (string \<times> string) option" where
  "int_part s =
     (case s of
        [] \<Rightarrow> None
      | c # t \<Rightarrow>
          if c = CHR ''0'' then Some (''0'', t)
          else if is_digit c then Some (takeWhile is_digit s, dropWhile is_digit s)
          else None)"

definition frac_part :: "string \<Rightarrow> (string \<times> string) option" where
  "frac_part r =
     (case r of
        [] \<Rightarrow> Some ([], [])
      | c # t \<Rightarrow>
          if c = CHR ''.'' then
            (if takeWhile is_digit t = [] then None
             else Some (takeWhile is_digit t, dropWhile is_digit t))
          else Some ([], r))"

definition exp_digits :: "int \<Rightarrow> string \<Rightarrow> (int \<times> string) option" where
  "exp_digits sg u =
     (if takeWhile is_digit u = [] then None
      else Some (sg * int (nat_of_digits (takeWhile is_digit u)), dropWhile is_digit u))"

definition exp_part :: "string \<Rightarrow> (int \<times> string) option" where
  "exp_part r =
     (case r of
        [] \<Rightarrow> Some (0, [])
      | c # t \<Rightarrow>
          if c = CHR ''e'' \<or> c = CHR ''E'' then
            (case t of
               [] \<Rightarrow> None
             | d # u \<Rightarrow>
                 if d = CHR ''+'' then exp_digits 1 u
                 else if d = CHR ''-'' then exp_digits (- 1) u
                 else exp_digits 1 t)
          else Some (0, r))"

definition parse_unsigned :: "string \<Rightarrow> (jsnum \<times> string) option" where
  "parse_unsigned s =
     (case int_part s of
        None \<Rightarrow> None
      | Some (ip, r1) \<Rightarrow>
          (case frac_part r1 of
             None \<Rightarrow> None
           | Some (fp, r2) \<Rightarrow>
               (case exp_part r2 of
                  None \<Rightarrow> None
                | Some (x, r3) \<Rightarrow>
                    Some (mk_fin (int (nat_of_digits (ip @ fp))) (x - int (length fp)), r3))))"

definition parse_number :: "string \<Rightarrow> (jsnum \<times> string) option" where
  "parse_number s =
     (case s of
        [] \<Rightarrow> None
      | c # t \<Rightarrow>
          if c = CHR ''-'' then
            (case parse_unsigned t of None \<Rightarrow> None | Some (x, r) \<Rightarrow> Some (num_neg x, r))
          else parse_unsigned s)"

text \<open>Recursive descent, with fuel for the recursion. Every call consumes a character
  before the next call, so the length of the text is enough fuel: \<open>JSON_parse\<close> rejects a
  text only if no fuel makes the parser accept it (lemma \<open>JSON_parse_fuel\<close>).\<close>

fun parse_value :: "nat \<Rightarrow> string \<Rightarrow> (jsval \<times> string) option"
  and parse_elements :: "nat \<Rightarrow> string \<Rightarrow> (jsval list \<times> string) option"
  and parse_members :: "nat \<Rightarrow> string \<Rightarrow> ((string \<times> jsval) list \<times> string) option" where
  "parse_value 0 s = None"
| "parse_value (Suc n) s =
     (case skip_ws s of
        [] \<Rightarrow> None
      | c # cs \<Rightarrow>
          if c = CHR ''{'' then
            (case skip_ws cs of
               [] \<Rightarrow> None
             | d # r \<Rightarrow>
                 if d = CHR ''}'' then Some (JObj [], r)
                 else (case parse_members n cs of
                         None \<Rightarrow> None
                       | Some (kvs, r') \<Rightarrow>
                           Some (JObj (foldl (\<lambda>obj kv. obj_set obj (fst kv) (snd kv)) [] kvs), r')))
          else if c = CHR ''['' then
            (case skip_ws cs of
               [] \<Rightarrow> None
             | d # r \<Rightarrow>
                 if d = CHR '']'' then Some (JArr [], r)
                 else (case parse_elements n cs of
                         None \<Rightarrow> None
                       | Some (vs, r') \<Rightarrow> Some (JArr vs, r')))
          else if c = CHR 0x22 then
            (case parse_chars cs of None \<Rightarrow> None | Some (str, r) \<Rightarrow> Some (JStr str, r))
          else if take 4 (c # cs) = ''true'' then Some (JBool True, drop 4 (c # cs))
          else if take 5 (c # cs) = ''false'' then Some (JBool False, drop 5 (c # cs))
          else if take 4 (c # cs) = ''null'' then Some (JNull, drop 4 (c # cs))
          else (case parse_number (c # cs) of None \<Rightarrow> None | Some (x, r) \<Rightarrow> Some (JNum x, r)))"
| "parse_elements 0 s = None"
| "parse_elements (Suc n) s =
     (case parse_value n s of
        None \<Rightarrow> None
      | Some (v, r) \<Rightarrow>
          (case skip_ws r of
             [] \<Rightarrow> None
           | c # r' \<Rightarrow>
               if c = CHR '','' then
                 (case parse_elements n r' of None \<Rightarrow> None | Some (vs, r'') \<Rightarrow> Some (v # vs, r''))
               else if c = CHR '']'' then Some ([v], r')
               else None))"
| "parse_members 0 s = None"
| "parse_members (Suc n) s =
     (case skip_ws s of
        [] \<Rightarrow> None
      | q # r \<Rightarrow>
          if q \<noteq> CHR 0x22 then None
          else (case parse_chars r of
                  None \<Rightarrow> None
                | Some (k, r1) \<Rightarrow>
                    (case skip_ws r1 of
                       [] \<Rightarrow> None
                     | c # r2 \<Rightarrow>
                         if c \<noteq> CHR '':'' then None
                         else (case parse_value n r2 of
                                 None \<Rightarrow> None
                               | Some (v, r3) \<Rightarrow>
                                   (case skip_ws r3 of
                                      [] \<Rightarrow> None
                                    | d # r4 \<Rightarrow>
                                        if d = CHR '','' then
                                          (case parse_members n r4 of
                                             None \<Rightarrow> None
                                           | Some (kvs, r5) \<Rightarrow> Some ((k, v) # kvs, r5))
                                        else if d = CHR ''}'' then Some ([(k, v)], r4)
                                        else None)))))"

definition JSON_parse :: "string \<Rightarrow> jsval option" where
  "JSON_parse s =
     (case parse_value (Suc (length s)) s of
        None \<Rightarrow> None
      | Some (v, r) \<Rightarrow> if skip_ws r = [] then Some v else None)"

section \<open>The node editor\<close>

subsection \<open>Rows, paths and the selected node\<close>

text \<open>Modelled from the spec: the type \<^verbatim>\<open>NodeData\<close> of \<^verbatim>\<open>types/graph\<close> is not in the
  sources. A row is \<^verbatim>\<open>{ key: optional string, value: scalar, type }\<close> with the six types
  of section 3; a path segment is a non-negative integer or a string.\<close>

datatype node_type = TString | TNumber | TBoolean | TNull | TObject | TArray

record node_row =
  row_key :: "string option"
  row_value :: jsval
  row_type :: node_type

datatype seg = Idx nat | Key string

record node_data =
  nd_text :: "node_row list"
  nd_path :: "seg list option"

text \<open>The property key of a segment: \<open>ptr[seg]\<close> converts a number with \<^verbatim>\<open>ToString\<close>.\<close>

definition propKey :: "seg \<Rightarrow> string" where
  "propKey sg = (case sg of Idx i \<Rightarrow> num_to_string (num_of_nat i) | Key k \<Rightarrow> k)"

text \<open>\<open>row.key\<close> as a condition: false when the key is absent or the empty string.\<close>

definition truthy :: "string option \<Rightarrow> bool" where
  "truthy k = (case k of None \<Rightarrow> False | Some s \<Rightarrow> s \<noteq> [])"

subsection \<open>\<^verbatim>\<open>normalizeNodeData\<close>\<close>

text \<open>The body of the \<^verbatim>\<open>forEach\<close>: one row stored into the object under construction.\<close>

definition add_row :: "(string \<times> jsval) list \<Rightarrow> node_row \<Rightarrow> (string \<times> jsval) list" where
  "add_row obj row =
     (if row_type row \<noteq> TArray \<and> row_type row \<noteq> TObject then
        (if truthy (row_key row) then obj_set obj (the (row_key row)) (row_value row) else obj)
      else obj)"

definition normalizeNodeData :: "node_row list \<Rightarrow> string" where
  "normalizeNodeData nodeRows =
     (if length nodeRows = 0 then ''{}''
      else if length nodeRows = 1 \<and> \<not> truthy (row_key (hd nodeRows))
        then ToString (row_value (hd nodeRows))
      else JSON_stringify (JObj (foldl add_row [] nodeRows)))"

subsection \<open>\<^verbatim>\<open>applyEditToJson\<close>\<close>

text \<open>The messages of \<^verbatim>\<open>setError\<close>, under the names the specification gives the errors.\<close>

datatype edit_error =
  MalformedDocument | InvalidNumber | InvalidBoolean | InvalidFragment | ApplyFailed

fun message :: "edit_error \<Rightarrow> string" where
  "message MalformedDocument = ''Failed to parse current JSON document.''"
| "message InvalidNumber = ''Invalid number''"
| "message InvalidBoolean = ''Invalid boolean (must be true or false)''"
| "message InvalidFragment = ''Invalid JSON for object/array node''"
| "message ApplyFailed = ''Failed to apply changes''"

definition isLeaf :: "node_data \<Rightarrow> bool" where
  "isLeaf nodeData \<longleftrightarrow>
     length (nd_text nodeData) = 1 \<and> \<not> truthy (row_key (hd (nd_text nodeData)))"

text \<open>Lines 215-256: the new value from the edited text \<open>raw\<close>, or the error that ends
  the save.\<close>

definition newValue :: "node_data \<Rightarrow> string \<Rightarrow> edit_error + jsval" where
  "newValue nodeData raw =
     (if isLeaf nodeData then
        (let leafType = row_type (hd (nd_text nodeData)) in
         if leafType = TString then Inr (JStr raw)
         else if leafType = TNumber then
           (let n = Number raw in if isNaN n then Inl InvalidNumber else Inr (JNum n))
         else if leafType = TBoolean then
           (let v = toLowerCase (trim raw) in
            if v \<noteq> ''true'' \<and> v \<noteq> ''false'' then Inl InvalidBoolean
            else Inr (JBool (v = ''true'')))
         else if leafType = TNull then Inr JNull
         else (case JSON_parse raw of Some v \<Rightarrow> Inr v | None \<Rightarrow> Inr (JStr raw)))
      else (case JSON_parse raw of Some v \<Rightarrow> Inr v | None \<Rightarrow> Inl InvalidFragment))"

text \<open>Lines 264-272: the loop over all segments but the last, then the assignment at the
  last one. \<open>ptr\<close> aliases a part of \<open>currentObj\<close>; here the changed part is returned and
  stored back at its segment on the way out. A missing intermediate value is replaced by
  \<open>{}\<close> before the walk goes on inside it.\<close>

fun assign_path :: "jsval \<Rightarrow> seg \<Rightarrow> seg list \<Rightarrow> jsval \<Rightarrow> exn + jsval" where
  "assign_path ptr sg [] v = setProp ptr (propKey sg) v"
| "assign_path ptr sg (nxt # rest) v =
     (case getProp ptr (propKey sg) of
        Inl x \<Rightarrow> Inl x
      | Inr cur \<Rightarrow>
          if cur = JUndefined then
            (case setProp ptr (propKey sg) (JObj []) of
               Inl x \<Rightarrow> Inl x
             | Inr ptr' \<Rightarrow>
                 (case assign_path (JObj []) nxt rest v of
                    Inl x \<Rightarrow> Inl x
                  | Inr c \<Rightarrow> setProp ptr' (propKey sg) c))
          else (case assign_path cur nxt rest v of
                  Inl x \<Rightarrow> Inl x
                | Inr c \<Rightarrow> setProp ptr (propKey sg) c))"

text \<open>\<open>nodeData.path ?? []\<close>.\<close>

definition path_of :: "node_data \<Rightarrow> seg list" where
  "path_of nodeData = (case nd_path nodeData of None \<Rightarrow> [] | Some p \<Rightarrow> p)"

text \<open>Lines 259-273: the empty path replaces the root.\<close>

definition assign_at :: "jsval \<Rightarrow> seg list \<Rightarrow> jsval \<Rightarrow> exn + jsval" where
  "assign_at currentObj path v =
     (case path of [] \<Rightarrow> Inr v | sg # rest \<Rightarrow> assign_path currentObj sg rest v)"

text \<open>Modelled from the spec: the stores \<^verbatim>\<open>useJson\<close>, \<^verbatim>\<open>useFile\<close> and \<^verbatim>\<open>useGraph\<close> are not in
  the sources. A setter replaces the text its store holds (section 6); \<open>calls\<close> logs every
  invocation. Whether a setter throws is a parameter \<open>throws\<close> of the functions below.\<close>

datatype setter = SetJson | SetContents | SetGraph | SetSelectedNode

record state =
  json :: string
  contents :: string
  hasChanges :: bool
  graph :: string
  selectedNode :: "node_data option"
  editing :: bool
  edited :: string
  error :: "string option"
  calls :: "setter list"

text \<open>Lines 279-284, the body of the \<^verbatim>\<open>try\<close>: \<open>Inl\<close> is the state at the setter that threw.\<close>

definition store_updates :: "(setter \<Rightarrow> bool) \<Rightarrow> string \<Rightarrow> state \<Rightarrow> state + state" where
  "store_updates throws newJsonStr st =
     (let st1 = st\<lparr>calls := calls st @ [SetJson]\<rparr> in
      if throws SetJson then Inl st1
      else
        let st2 = st1\<lparr>json := newJsonStr, calls := calls st1 @ [SetContents]\<rparr> in
        if throws SetContents then Inl st2
        else
          let st3 = st2\<lparr>contents := newJsonStr, hasChanges := True,
                       calls := calls st2 @ [SetGraph]\<rparr> in
          if throws SetGraph then Inl st3
          else
            let st4 = st3\<lparr>graph := newJsonStr, calls := calls st3 @ [SetSelectedNode]\<rparr> in
            if throws SetSelectedNode then Inl st4
            else Inr (st4\<lparr>selectedNode := None\<rparr>))"

text \<open>The result of a call: it returns, or an exception leaves it.\<close>

datatype outcome = Returned state | Thrown exn state

definition applyEditToJson :: "(setter \<Rightarrow> bool) \<Rightarrow> state \<Rightarrow> string \<Rightarrow> outcome" where
  "applyEditToJson throws st raw =
     (case selectedNode st of
        None \<Rightarrow> Returned st
      | Some nodeData \<Rightarrow>
          (case JSON_parse (json st) of
             None \<Rightarrow> Returned (st\<lparr>error := Some (message MalformedDocument)\<rparr>)
           | Some currentObj \<Rightarrow>
               (case newValue nodeData raw of
                  Inl e \<Rightarrow> Returned (st\<lparr>error := Some (message e)\<rparr>)
                | Inr v \<Rightarrow>
                    (case assign_at currentObj (path_of nodeData) v of
                       Inl x \<Rightarrow> Thrown x st
                     | Inr newObj \<Rightarrow>
                         (case store_updates throws (JSON_stringify newObj) st of
                            Inl st' \<Rightarrow> Returned (st'\<lparr>error := Some (message ApplyFailed)\<rparr>)
                          | Inr st' \<Rightarrow>
                              Returned (st'\<lparr>editing := False, edited := [], error := None\<rparr>))))))"

definition handleSave :: "(setter \<Rightarrow> bool) \<Rightarrow> state \<Rightarrow> outcome" where
  "handleSave throws st = applyEditToJson throws st (edited st)"

subsection \<open>Notions used to state the properties\<close>

text \<open>A composite row set is any row set other than a single row without a key.\<close>

definition composite :: "node_row list \<Rightarrow> bool" where
  "composite nodeRows \<longleftrightarrow> \<not> (length nodeRows = 1 \<and> \<not> truthy (row_key (hd nodeRows)))"

definition scalar_typed :: "node_row \<Rightarrow> bool" where
  "scalar_typed row \<longleftrightarrow> row_type row \<noteq> TObject \<and> row_type row \<noteq> TArray"


text \<open>Collaborators that never throw, and a session state over one document text with one
  node selected, for the examples.\<close>

definition no_throw :: "setter \<Rightarrow> bool" where
  "no_throw s = False"

definition leaf_row :: "node_type \<Rightarrow> node_row" where
  "leaf_row t = \<lparr>row_key = None, row_value = JNull, row_type = t\<rparr>"

definition keyed_row :: "string \<Rightarrow> jsval \<Rightarrow> node_type \<Rightarrow> node_row" where
  "keyed_row k v t = \<lparr>row_key = Some k, row_value = v, row_type = t\<rparr>"

definition session :: "string \<Rightarrow> node_row list \<Rightarrow> seg list \<Rightarrow> state" where
  "session doc rows path =
     \<lparr>json = doc, contents = doc, hasChanges = False, graph = doc,
      selectedNode = Some \<lparr>nd_text = rows, nd_path = Some path\<rparr>,
      editing = True, edited = [], error = None, calls = []\<rparr>"




text \<open>The values JSON can express: no \<^verbatim>\<open>undefined\<close> and no number that is not finite,
  at any depth.\<close>

fun json_value :: "jsval \<Rightarrow> bool" where
  "json_value JUndefined = False"
| "json_value JNull = True"
| "json_value (JBool b) = True"
| "json_value (JNum x) = (case x of Fin m e \<Rightarrow> True | _ \<Rightarrow> False)"
| "json_value (JStr s) = True"
| "json_value (JArr xs) = list_all json_value xs"
| "json_value (JObj kvs) = list_all (\<lambda>kv. json_value (snd kv)) kvs"










section \<open>Properties\<close>

subsection \<open>Failing saves\<close>

lemma applyEditToJson_rejects:
  assumes "selectedNode st = Some nodeData" and "JSON_parse (json st) = Some currentObj"
    and "newValue nodeData raw = Inl e"
  shows "applyEditToJson throws st raw = Returned (st\<lparr>error := Some (message e)\<rparr>)"
  using assms by (simp add: applyEditToJson_def)

text \<open>C2. When the current document text does not parse, the save returns with the
  message of \<open>MalformedDocument\<close> set and nothing else changed: no setter is called, and
  the document text, the file contents, the graph and the edited text are as before.\<close>

theorem malformed_document_aborts:
  assumes "selectedNode st = Some nodeData" and "JSON_parse (json st) = None"
  shows "\<exists>st'. applyEditToJson throws st raw = Returned st'
           \<and> st' = st\<lparr>error := Some (message MalformedDocument)\<rparr>
           \<and> calls st' = calls st \<and> json st' = json st \<and> contents st' = contents st
           \<and> graph st' = graph st \<and> edited st' = edited st"
  using assms by (simp add: applyEditToJson_def)

theorem malformed_document_aborts_witness:
  "selectedNode (session ''{'' [leaf_row TString] []) = Some \<lparr>nd_text = [leaf_row TString], nd_path = Some []\<rparr>
   \<and> JSON_parse (json (session ''{'' [leaf_row TString] [])) = None
   \<and> applyEditToJson no_throw (session ''{'' [leaf_row TString] []) ''x''
      = Returned ((session ''{'' [leaf_row TString] [])
           \<lparr>error := Some ''Failed to parse current JSON document.''\<rparr>)
   \<and> calls ((session ''{'' [leaf_row TString] [])
           \<lparr>error := Some ''Failed to parse current JSON document.''\<rparr>) = []"
proof -
  let ?st = "session ''{'' [leaf_row TString] []"
  have h1: "selectedNode ?st = Some \<lparr>nd_text = [leaf_row TString], nd_path = Some []\<rparr>"
    by (simp add: session_def)
  have h2: "JSON_parse (json ?st) = None"
    by code_simp
  have h3: "calls ?st = []"
    by (simp add: session_def)
  from malformed_document_aborts [OF h1 h2, of no_throw "''x''"] h1 h2 h3 show ?thesis
    by auto
qed

text \<open>C4 (the code does not do this). A path that runs into \<^verbatim>\<open>null\<close> makes the
  assignment throw a TypeError outside every \<^verbatim>\<open>try\<close>: the save is left by the exception
  with no message set.\<close>

theorem path_walk_failure_escapes:
  "applyEditToJson no_throw (session ''null'' [leaf_row TString] [Key ''a'']) ''x''
     = Thrown TypeError (session ''null'' [leaf_row TString] [Key ''a''])
   \<and> error (session ''null'' [leaf_row TString] [Key ''a'']) = None"
  by code_simp

subsection \<open>Coercion of a leaf\<close>

text \<open>C5. Under the type boolean the edited text is trimmed and lower-cased; \<^verbatim>\<open>true\<close>
  gives the boolean true, \<^verbatim>\<open>false\<close> gives false, and any other text fails with
  \<open>InvalidBoolean\<close>.\<close>

theorem boolean_coercion:
  assumes "isLeaf nodeData" and "row_type (hd (nd_text nodeData)) = TBoolean"
  shows "newValue nodeData raw =
           (if toLowerCase (trim raw) = ''true'' then Inr (JBool True)
            else if toLowerCase (trim raw) = ''false'' then Inr (JBool False)
            else Inl InvalidBoolean)
       \<and> (selectedNode st = Some nodeData \<and> JSON_parse (json st) \<noteq> None
            \<and> toLowerCase (trim raw) \<noteq> ''true'' \<and> toLowerCase (trim raw) \<noteq> ''false'' \<longrightarrow>
          applyEditToJson throws st raw
            = Returned (st\<lparr>error := Some ''Invalid boolean (must be true or false)''\<rparr>))"
proof -
  have v: "newValue nodeData raw =
           (if toLowerCase (trim raw) = ''true'' then Inr (JBool True)
            else if toLowerCase (trim raw) = ''false'' then Inr (JBool False)
            else Inl InvalidBoolean)"
    using assms by (simp add: newValue_def Let_def)
  have "applyEditToJson throws st raw
            = Returned (st\<lparr>error := Some ''Invalid boolean (must be true or false)''\<rparr>)"
    if "selectedNode st = Some nodeData" "JSON_parse (json st) \<noteq> None"
      "toLowerCase (trim raw) \<noteq> ''true''" "toLowerCase (trim raw) \<noteq> ''false''"
  proof -
    from that(2) obtain currentObj where "JSON_parse (json st) = Some currentObj" by auto
    moreover have "newValue nodeData raw = Inl InvalidBoolean"
      using v that(3,4) by simp
    ultimately show ?thesis
      using applyEditToJson_rejects [OF that(1)] by fastforce
  qed
  with v show ?thesis by blast
qed

theorem boolean_coercion_witness:
  "isLeaf \<lparr>nd_text = [leaf_row TBoolean], nd_path = Some []\<rparr>
   \<and> row_type (hd (nd_text \<lparr>nd_text = [leaf_row TBoolean], nd_path = Some []\<rparr>)) = TBoolean
   \<and> newValue \<lparr>nd_text = [leaf_row TBoolean], nd_path = Some []\<rparr> '' TRUE '' = Inr (JBool True)
   \<and> newValue \<lparr>nd_text = [leaf_row TBoolean], nd_path = Some []\<rparr> ''false'' = Inr (JBool False)
   \<and> newValue \<lparr>nd_text = [leaf_row TBoolean], nd_path = Some []\<rparr> ''yes'' = Inl InvalidBoolean
   \<and> applyEditToJson no_throw (session ''true'' [leaf_row TBoolean] []) ''yes''
       = Returned ((session ''true'' [leaf_row TBoolean] [])
            \<lparr>error := Some ''Invalid boolean (must be true or false)''\<rparr>)"
proof -
  let ?nd = "\<lparr>nd_text = [leaf_row TBoolean], nd_path = Some []\<rparr>"
  let ?st = "session ''true'' [leaf_row TBoolean] []"
  have h1: "isLeaf ?nd"
    by (simp add: isLeaf_def leaf_row_def truthy_def)
  have h2: "row_type (hd (nd_text ?nd)) = TBoolean"
    by (simp add: leaf_row_def)
  have e1: "toLowerCase (trim '' TRUE '') = ''true''" by code_simp
  have e2: "toLowerCase (trim ''false'') = ''false''" by code_simp
  have e3: "toLowerCase (trim ''yes'') = ''yes''" by code_simp
  have s1: "selectedNode ?st = Some ?nd" by (simp add: session_def)
  have s2: "JSON_parse (json ?st) \<noteq> None" by code_simp
  from boolean_coercion [OF h1 h2, of "'' TRUE ''"] e1
  have r1: "newValue ?nd '' TRUE '' = Inr (JBool True)" by simp
  from boolean_coercion [OF h1 h2, of "''false''"] e2
  have r2: "newValue ?nd ''false'' = Inr (JBool False)" by simp
  from boolean_coercion [OF h1 h2, of "''yes''" ?st no_throw] e3 s1 s2
  have r3: "newValue ?nd ''yes'' = Inl InvalidBoolean"
    and r4: "applyEditToJson no_throw ?st ''yes''
       = Returned (?st\<lparr>error := Some ''Invalid boolean (must be true or false)''\<rparr>)"
    by simp_all
  from h1 h2 r1 r2 r3 r4 show ?thesis by blast
qed

text \<open>C6. Under the type number the edited text goes through \<^verbatim>\<open>Number\<close>; the coercion
  fails with \<open>InvalidNumber\<close> exactly when the result is NaN. \<^verbatim>\<open>42\<close> gives the number 42
  and \<^verbatim>\<open>abc\<close> fails.\<close>

theorem number_coercion:
  assumes "isLeaf nodeData" and "row_type (hd (nd_text nodeData)) = TNumber"
  shows "(newValue nodeData raw = Inl InvalidNumber \<longleftrightarrow> Number raw = NaN)
       \<and> (Number raw \<noteq> NaN \<longrightarrow> newValue nodeData raw = Inr (JNum (Number raw)))
       \<and> newValue nodeData ''42'' = Inr (JNum (Fin 42 0))
       \<and> newValue nodeData ''abc'' = Inl InvalidNumber
       \<and> (selectedNode st = Some nodeData \<and> JSON_parse (json st) \<noteq> None \<and> Number raw = NaN \<longrightarrow>
          applyEditToJson throws st raw = Returned (st\<lparr>error := Some ''Invalid number''\<rparr>))"
proof -
  have a: "Number ''42'' = Fin 42 0" by code_simp
  have b: "Number ''abc'' = NaN" by code_simp
  have v: "newValue nodeData t = (if Number t = NaN then Inl InvalidNumber else Inr (JNum (Number t)))"
    for t
    using assms by (simp add: newValue_def Let_def isNaN_def)
  have "applyEditToJson throws st raw = Returned (st\<lparr>error := Some ''Invalid number''\<rparr>)"
    if "selectedNode st = Some nodeData" "JSON_parse (json st) \<noteq> None" "Number raw = NaN"
  proof -
    from that(2) obtain currentObj where "JSON_parse (json st) = Some currentObj" by auto
    moreover have "newValue nodeData raw = Inl InvalidNumber"
      using v [of raw] that(3) by simp
    ultimately show ?thesis
      using applyEditToJson_rejects [OF that(1)] by fastforce
  qed
  then show ?thesis
    using v [of raw] v [of "''42''"] v [of "''abc''"] a b by simp
qed

theorem number_coercion_witness:
  "isLeaf \<lparr>nd_text = [leaf_row TNumber], nd_path = Some []\<rparr>
   \<and> row_type (hd (nd_text \<lparr>nd_text = [leaf_row TNumber], nd_path = Some []\<rparr>)) = TNumber
   \<and> newValue \<lparr>nd_text = [leaf_row TNumber], nd_path = Some []\<rparr> ''42'' = Inr (JNum (Fin 42 0))
   \<and> newValue \<lparr>nd_text = [leaf_row TNumber], nd_path = Some []\<rparr> ''abc'' = Inl InvalidNumber
   \<and> newValue \<lparr>nd_text = [leaf_row TNumber], nd_path = Some []\<rparr> '' -1.50e3 '' = Inr (JNum (Fin (- 15) 2))
   \<and> applyEditToJson no_throw (session ''7'' [leaf_row TNumber] []) ''abc''
       = Returned ((session ''7'' [leaf_row TNumber] []) \<lparr>error := Some ''Invalid number''\<rparr>)"
proof -
  let ?nd = "\<lparr>nd_text = [leaf_row TNumber], nd_path = Some []\<rparr>"
  let ?st = "session ''7'' [leaf_row TNumber] []"
  have h1: "isLeaf ?nd"
    by (simp add: isLeaf_def leaf_row_def truthy_def)
  have h2: "row_type (hd (nd_text ?nd)) = TNumber"
    by (simp add: leaf_row_def)
  have e: "Number '' -1.50e3 '' = Fin (- 15) 2" by code_simp
  have b: "Number ''abc'' = NaN" by code_simp
  have s1: "selectedNode ?st = Some ?nd" by (simp add: session_def)
  have s2: "JSON_parse (json ?st) \<noteq> None" by code_simp
  from number_coercion [OF h1 h2, of "'' -1.50e3 ''"] e
  have r: "newValue ?nd '' -1.50e3 '' = Inr (JNum (Fin (- 15) 2))" by simp
  from number_coercion [OF h1 h2, of "''abc''" ?st no_throw] b s1 s2
  have r2: "newValue ?nd ''42'' = Inr (JNum (Fin 42 0))"
    and r3: "newValue ?nd ''abc'' = Inl InvalidNumber"
    and r4: "applyEditToJson no_throw ?st ''abc''
       = Returned (?st\<lparr>error := Some ''Invalid number''\<rparr>)"
    by simp_all
  from h1 h2 r r2 r3 r4 show ?thesis by blast
qed



subsection \<open>Objects as property lists\<close>







subsection \<open>The projection of a row set\<close>

lemma add_row_skip: "\<not> scalar_typed r \<or> \<not> truthy (row_key r) \<Longrightarrow> add_row obj r = obj"
  by (auto simp: add_row_def scalar_typed_def)

lemma foldl_add_row_filter:
  "(\<And>r. r \<in> set rows \<Longrightarrow> \<not> P r \<Longrightarrow> \<not> scalar_typed r \<or> \<not> truthy (row_key r))
     \<Longrightarrow> foldl add_row obj (filter P rows) = foldl add_row obj rows"
proof (induction rows arbitrary: obj)
  case Nil
  show ?case by simp
next
  case (Cons r rows)
  have step: "foldl add_row obj' (filter P rows) = foldl add_row obj' rows" for obj'
    using Cons.prems by (intro Cons.IH) auto
  show ?case
  proof (cases "P r")
    case True
    then show ?thesis by (simp add: step)
  next
    case False
    then have "add_row obj r = obj" using Cons.prems add_row_skip by auto
    with False show ?thesis by (simp add: step)
  qed
qed


lemma normalizeNodeData_composite:
  "composite rows \<Longrightarrow> normalizeNodeData rows = JSON_stringify (JObj (foldl add_row [] rows))"
  by (cases rows) (auto simp: normalizeNodeData_def composite_def JSON_stringify_def)



text \<open>C10. In the composite projection a row whose key is absent or empty is left out as
  well; when every row is keyless or of type object or array, the text is \<^verbatim>\<open>{}\<close>.\<close>

theorem keyless_rows_excluded:
  assumes "composite rows"
  shows "normalizeNodeData rows
           = JSON_stringify (JObj (foldl add_row [] (filter (\<lambda>r. truthy (row_key r)) rows)))
       \<and> ((\<forall>r \<in> set rows. \<not> truthy (row_key r) \<or> row_type r = TObject \<or> row_type r = TArray)
             \<longrightarrow> normalizeNodeData rows = ''{}'')"
proof -
  have a: "foldl add_row [] (filter (\<lambda>r. truthy (row_key r)) rows) = foldl add_row [] rows"
    by (rule foldl_add_row_filter) simp
  have b: "foldl add_row [] rows = []"
    if "\<forall>r \<in> set rows. \<not> truthy (row_key r) \<or> row_type r = TObject \<or> row_type r = TArray"
  proof -
    have "foldl add_row [] (filter (\<lambda>r. False) rows) = foldl add_row [] rows"
      by (rule foldl_add_row_filter)
         (use that in \<open>auto simp: scalar_typed_def\<close>)
    then show ?thesis by simp
  qed
  have c: "JSON_stringify (JObj []) = ''{}''"
    by (simp add: JSON_stringify_def)
  show ?thesis
    using assms a b c by (simp add: normalizeNodeData_composite)
qed

theorem keyless_rows_excluded_witness:
  "composite [leaf_row TString, keyed_row ''items'' JNull TArray, \<lparr>row_key = Some [], row_value = JBool True, row_type = TBoolean\<rparr>]
   \<and> list_all (\<lambda>r. \<not> truthy (row_key r) \<or> row_type r = TObject \<or> row_type r = TArray)
         [leaf_row TString, keyed_row ''items'' JNull TArray, \<lparr>row_key = Some [], row_value = JBool True, row_type = TBoolean\<rparr>]
   \<and> normalizeNodeData [leaf_row TString, keyed_row ''items'' JNull TArray, \<lparr>row_key = Some [], row_value = JBool True, row_type = TBoolean\<rparr>] = ''{}''"
proof -
  let ?rows = "[leaf_row TString, keyed_row ''items'' JNull TArray, \<lparr>row_key = Some [], row_value = JBool True, row_type = TBoolean\<rparr>]"
  have h1: "composite ?rows"
    by (simp add: composite_def)
  have h2: "\<forall>r \<in> set ?rows. \<not> truthy (row_key r) \<or> row_type r = TObject \<or> row_type r = TArray"
    by (simp add: leaf_row_def keyed_row_def truthy_def)
  have h3: "list_all (\<lambda>r. \<not> truthy (row_key r) \<or> row_type r = TObject \<or> row_type r = TArray) ?rows"
    using h2 by (simp only: list_all_iff)
  from keyless_rows_excluded [OF h1] h2 have "normalizeNodeData ?rows = ''{}''"
    by blast
  with h1 h3 show ?thesis
    by blast
qed

text \<open>C8. The empty row set gives \<^verbatim>\<open>{}\<close>. A single row without a key gives the
  \<^verbatim>\<open>ToString\<close> text of its value, whatever its type: a string as it is, without quotes or
  escapes, a number in its decimal text, a boolean as \<^verbatim>\<open>true\<close> or \<^verbatim>\<open>false\<close>, null as
  \<^verbatim>\<open>null\<close>.\<close>

theorem leaf_projection_plain_text:
  "normalizeNodeData [] = ''{}''
   \<and> (\<not> truthy k \<longrightarrow>
        normalizeNodeData [\<lparr>row_key = k, row_value = v, row_type = t\<rparr>] = ToString v
      \<and> normalizeNodeData [\<lparr>row_key = k, row_value = JStr s, row_type = t\<rparr>] = s
      \<and> normalizeNodeData [\<lparr>row_key = k, row_value = JNum x, row_type = t\<rparr>] = num_to_string x
      \<and> normalizeNodeData [\<lparr>row_key = k, row_value = JBool b, row_type = t\<rparr>]
           = (if b then ''true'' else ''false'')
      \<and> normalizeNodeData [\<lparr>row_key = k, row_value = JNull, row_type = t\<rparr>] = ''null'')"
  by (simp add: normalizeNodeData_def)

theorem leaf_projection_plain_text_witness:
  "\<not> truthy None
   \<and> normalizeNodeData [\<lparr>row_key = None, row_value = JStr ''say \"hi\"'', row_type = TString\<rparr>]
       = ''say \"hi\"''
   \<and> JSON_stringify (JStr ''say \"hi\"'') \<noteq> ''say \"hi\"''
   \<and> normalizeNodeData [\<lparr>row_key = None, row_value = JNum (Fin 15 (- 1)), row_type = TNumber\<rparr>]
       = ''1.5''"
proof -
  have h: "\<not> truthy None" by (simp add: truthy_def)
  have n: "num_to_string (Fin 15 (- 1)) = ''1.5''" by code_simp
  have q: "JSON_stringify (JStr ''say \"hi\"'') \<noteq> ''say \"hi\"''" by code_simp
  from leaf_projection_plain_text [of None "JNull" TString "''say \"hi\"''" "Fin 15 (- 1)" True]
    leaf_projection_plain_text [of None "JNull" TNumber "''say \"hi\"''" "Fin 15 (- 1)" True] h n q
  show ?thesis by simp
qed

subsection \<open>Missing intermediate values\<close>






section \<open>The round trip through \<^verbatim>\<open>JSON.stringify\<close> and \<^verbatim>\<open>JSON.parse\<close>\<close>

subsection \<open>Numbers read back\<close>

lemma less_ten_cases:
  "d < 10 \<Longrightarrow> d = 0 \<or> d = 1 \<or> d = 2 \<or> d = 3 \<or> d = 4 \<or> d = 5 \<or> d = 6 \<or> d = 7 \<or> d = 8 \<or> d = (9::nat)"
  by arith














lemma nat_of_digits_Nil: "nat_of_digits [] = 0"
  by (simp add: nat_of_digits_def)



























subsection \<open>String literals read back\<close>






subsection \<open>Property order\<close>















subsection \<open>Parsing what was serialised\<close>















lemma parse_elements_more:
  assumes "parse_value n s = Some (v, r)" and "skip_ws r = CHR '','' # r'"
    and "parse_elements n r' = Some (vs, r'')"
  shows "parse_elements (Suc n) s = Some (v # vs, r'')"
  using assms by simp

lemma parse_elements_last:
  assumes "parse_value n s = Some (v, r)" and "skip_ws r = CHR '']'' # r'"
  shows "parse_elements (Suc n) s = Some ([v], r')"
  using assms by simp

lemma parse_members_more:
  assumes "skip_ws s = CHR 0x22 # r0" and "parse_chars r0 = Some (k, r1)"
    and "skip_ws r1 = CHR '':'' # r2" and "parse_value n r2 = Some (v, r3)"
    and "skip_ws r3 = CHR '','' # r4" and "parse_members n r4 = Some (kvs, r5)"
  shows "parse_members (Suc n) s = Some ((k, v) # kvs, r5)"
  using assms by simp

lemma parse_members_last:
  assumes "skip_ws s = CHR 0x22 # r0" and "parse_chars r0 = Some (k, r1)"
    and "skip_ws r1 = CHR '':'' # r2" and "parse_value n r2 = Some (v, r3)"
    and "skip_ws r3 = CHR ''}'' # r4"
  shows "parse_members (Suc n) s = Some ([(k, v)], r4)"
  using assms by simp




declare parse_value.simps [simp del] parse_elements.simps [simp del] parse_members.simps [simp del]









subsection \<open>What the parser and the coercion yield\<close>












lemma json_value_defined: "json_value v \<Longrightarrow> v \<noteq> JUndefined"
  by auto





subsection \<open>Re-reading at the path of an edit\<close>














subsection \<open>The fuel of the parser\<close>

lemma length_skip_ws: "length (skip_ws s) \<le> length s"
  by (simp add: skip_ws_def length_dropWhile_le)

lemma skip_ws_Cons_length: "skip_ws s = c # cs \<Longrightarrow> length cs < length s"
  using length_skip_ws [of s] by simp

lemma parse_chars_closing:
  assumes "parse_chars (c # cs) = Some (str, r)" "c = CHR 0x22"
  shows "r = cs"
  using assms by simp

lemma parse_chars_plain:
  assumes "parse_chars (c # cs) = Some (str, r)" "c \<noteq> CHR 0x22" "c \<noteq> CHR 0x5C"
  shows "\<exists>str'. parse_chars cs = Some (str', r)"
  using assms by (auto simp: cons_char_def split: if_splits option.splits)

lemma parse_chars_escaped:
  assumes "parse_chars (c # x # r0) = Some (str, r)" "c = CHR 0x5C" "x \<noteq> CHR ''u''"
  shows "\<exists>str'. parse_chars r0 = Some (str', r)"
  using assms by (auto simp: cons_char_def split: option.splits)

lemma parse_chars_unicode:
  assumes "parse_chars (c # x # r0) = Some (str, r)" "c = CHR 0x5C" "x = CHR ''u''"
  shows "\<exists>h1 h2 h3 h4 r' str'. r0 = h1 # h2 # h3 # h4 # r' \<and> parse_chars r' = Some (str', r)"
proof -
  from assms have a: "(case r0 of
               h1 # h2 # h3 # h4 # r' \<Rightarrow>
                 (case hex4 h1 h2 h3 h4 of
                    None \<Rightarrow> None
                  | Some n \<Rightarrow> if n < 256 then cons_char (char_of n) (parse_chars r') else None)
             | _ \<Rightarrow> None) = Some (str, r)"
    by simp
  show ?thesis
  proof (cases r0)
    case Nil
    with a show ?thesis by simp
  next
    case c1: (Cons h1 r1)
    show ?thesis
    proof (cases r1)
      case Nil
      with a c1 show ?thesis by simp
    next
      case c2: (Cons h2 r2)
      show ?thesis
      proof (cases r2)
        case Nil
        with a c1 c2 show ?thesis by simp
      next
        case c3: (Cons h3 r3)
        show ?thesis
        proof (cases r3)
          case Nil
          with a c1 c2 c3 show ?thesis by simp
        next
          case c4: (Cons h4 r')
          with a c1 c2 c3 have "(case hex4 h1 h2 h3 h4 of
                    None \<Rightarrow> None
                  | Some n \<Rightarrow> if n < 256 then cons_char (char_of n) (parse_chars r') else None)
              = Some (str, r)"
            by simp
          then obtain str' where "parse_chars r' = Some (str', r)"
            by (auto simp: cons_char_def split: option.splits if_splits)
          with c1 c2 c3 c4 show ?thesis by simp
        qed
      qed
    qed
  qed
qed

lemma parse_chars_next:
  assumes "parse_chars (c # cs) = Some (str, r)"
  shows "r = cs \<or> (\<exists>r' str'. length r' \<le> length cs \<and> parse_chars r' = Some (str', r))"
proof -
  consider (q) "c = CHR 0x22" | (e) "c = CHR 0x5C" | (o) "c \<noteq> CHR 0x22" "c \<noteq> CHR 0x5C"
    by blast
  then show ?thesis
  proof cases
    case q
    from parse_chars_closing [OF assms q] show ?thesis by simp
  next
    case o
    from parse_chars_plain [OF assms o] show ?thesis by auto
  next
    case e
    show ?thesis
    proof (cases cs)
      case Nil
      with assms e show ?thesis by simp
    next
      case (Cons x r0)
      show ?thesis
      proof (cases "x = CHR ''u''")
        case False
        from parse_chars_escaped [OF assms [unfolded Cons] e False] Cons show ?thesis
          by auto
      next
        case True
        from parse_chars_unicode [OF assms [unfolded Cons] e True] Cons show ?thesis
          by auto
      qed
    qed
  qed
qed

lemma parse_chars_shorter: "parse_chars cs = Some (str, r) \<Longrightarrow> length r < length cs"
proof (induction "length cs" arbitrary: cs str rule: less_induct)
  case less
  show ?case
  proof (cases cs)
    case Nil
    with less.prems show ?thesis by simp
  next
    case (Cons c cs')
    from parse_chars_next [of c cs' str r] less.prems Cons
    have "r = cs' \<or> (\<exists>r' str'. length r' \<le> length cs' \<and> parse_chars r' = Some (str', r))"
      by simp
    then show ?thesis
    proof
      assume "r = cs'"
      with Cons show ?thesis by simp
    next
      assume "\<exists>r' str'. length r' \<le> length cs' \<and> parse_chars r' = Some (str', r)"
      then obtain r' str' where r': "length r' \<le> length cs'" "parse_chars r' = Some (str', r)"
        by blast
      from r'(1) Cons have "length r' < length cs" by simp
      from less.hyps [OF this r'(2)] this show ?thesis by simp
    qed
  qed
qed

lemma parse_unsigned_shorter:
  assumes "parse_unsigned s = Some (x, r)"
  shows "length r < length s"
proof -
  from assms obtain ip r1 fp r2 ex where
    i: "int_part s = Some (ip, r1)" and f: "frac_part r1 = Some (fp, r2)"
    and e: "exp_part r2 = Some (ex, r)"
    by (auto simp: parse_unsigned_def split: option.splits prod.splits)
  from i have "length r1 < length s"
    using length_dropWhile_le [of is_digit "tl s"]
    by (auto simp: int_part_def split: list.splits if_splits)
  moreover from f have "length r2 \<le> length r1"
    using length_dropWhile_le [of is_digit "tl r1"]
    by (auto simp: frac_part_def split: list.splits if_splits)
  moreover from e have "length r \<le> length r2"
    using length_dropWhile_le [of is_digit "tl r2"] length_dropWhile_le [of is_digit "tl (tl r2)"]
    by (auto simp: exp_part_def exp_digits_def split: list.splits if_splits)
  ultimately show ?thesis by simp
qed

lemma parse_number_shorter:
  assumes "parse_number s = Some (x, r)"
  shows "length r < length s"
  using assms parse_unsigned_shorter
  by (fastforce simp: parse_number_def split: list.splits if_splits option.splits)


lemma parse_value_scalar_fuel:
  assumes "skip_ws s = c # cs" and "c \<noteq> CHR ''{''" and "c \<noteq> CHR ''[''"
  shows "parse_value (Suc n) s = parse_value (Suc m) s"
  using assms by (simp add: parse_value.simps)

lemma parse_value_scalar_shorter:
  assumes "parse_value (Suc n) s = Some (v, r)" and "skip_ws s = c # cs"
    and "c \<noteq> CHR ''{''" and "c \<noteq> CHR ''[''"
  shows "length r < length s"
proof -
  have l: "length (c # cs) \<le> length s"
    using length_skip_ws [of s] assms(2) by simp
  have lit: "length (drop k (c # cs)) < length s" if "0 < k" for k
    using l that by simp
  show ?thesis
  proof (cases "c = CHR 0x22")
    case True
    with assms obtain str where "parse_chars cs = Some (str, r)"
      by (auto simp: parse_value.simps split: option.splits)
    from parse_chars_shorter [OF this] l show ?thesis by simp
  next
    case False
    from assms False
    have "r = drop 4 (c # cs) \<or> r = drop 5 (c # cs) \<or> (\<exists>x. parse_number (c # cs) = Some (x, r))"
      by (auto simp: parse_value.simps split: if_splits option.splits)
    then show ?thesis
      using lit [of 4] lit [of 5] parse_number_shorter [of "c # cs" _ r] l by auto
  qed
qed

lemma parse_value_open_object:
  assumes "skip_ws s = CHR ''{'' # cs"
  shows "parse_value (Suc n) s =
           (case skip_ws cs of
              [] \<Rightarrow> None
            | d # r \<Rightarrow>
                if d = CHR ''}'' then Some (JObj [], r)
                else (case parse_members n cs of
                        None \<Rightarrow> None
                      | Some (kvs, r') \<Rightarrow>
                          Some (JObj (foldl (\<lambda>obj kv. obj_set obj (fst kv) (snd kv)) [] kvs), r')))"
  using assms by (simp add: parse_value.simps)

lemma parse_value_open_array:
  assumes "skip_ws s = CHR ''['' # cs"
  shows "parse_value (Suc n) s =
           (case skip_ws cs of
              [] \<Rightarrow> None
            | d # r \<Rightarrow>
                if d = CHR '']'' then Some (JArr [], r)
                else (case parse_elements n cs of
                        None \<Rightarrow> None
                      | Some (vs, r') \<Rightarrow> Some (JArr vs, r')))"
  using assms by (simp add: parse_value.simps)

lemma parse_elements_cases:
  assumes "parse_elements (Suc n) s = Some (vs, r)"
  obtains (more) v r1 r' vs' where "parse_value n s = Some (v, r1)" "skip_ws r1 = CHR '','' # r'"
      "parse_elements n r' = Some (vs', r)" "vs = v # vs'"
    | (last) v r1 where "parse_value n s = Some (v, r1)" "skip_ws r1 = CHR '']'' # r" "vs = [v]"
  using assms
  by (auto simp: parse_elements.simps split: option.splits list.splits if_splits)

lemma parse_members_cases:
  assumes "parse_members (Suc n) s = Some (kvs, r)"
  obtains (more) r0 k r1 r2 v r3 r4 kvs' where "skip_ws s = CHR 0x22 # r0"
      "parse_chars r0 = Some (k, r1)" "skip_ws r1 = CHR '':'' # r2"
      "parse_value n r2 = Some (v, r3)" "skip_ws r3 = CHR '','' # r4"
      "parse_members n r4 = Some (kvs', r)" "kvs = (k, v) # kvs'"
    | (last) r0 k r1 r2 v r3 where "skip_ws s = CHR 0x22 # r0"
      "parse_chars r0 = Some (k, r1)" "skip_ws r1 = CHR '':'' # r2"
      "parse_value n r2 = Some (v, r3)" "skip_ws r3 = CHR ''}'' # r" "kvs = [(k, v)]"
  using assms
  by (auto simp: parse_members.simps split: option.splits list.splits if_splits)


lemma parse_fuel:
  "(\<forall>s v r. parse_value n s = Some (v, r) \<longrightarrow>
       length r < length s \<and> (\<forall>m. length s - length r \<le> m \<longrightarrow> parse_value m s = Some (v, r)))
   \<and> (\<forall>s vs r. parse_elements n s = Some (vs, r) \<longrightarrow>
       length r < length s \<and> (\<forall>m. length s - length r \<le> m \<longrightarrow> parse_elements m s = Some (vs, r)))
   \<and> (\<forall>s kvs r. parse_members n s = Some (kvs, r) \<longrightarrow>
       length r < length s \<and> (\<forall>m. length s - length r \<le> m \<longrightarrow> parse_members m s = Some (kvs, r)))"
proof (induction n)
  case 0
  show ?case by (simp add: parse_value.simps parse_elements.simps parse_members.simps)
next
  case (Suc n)
  then have ihv: "\<And>s v r. parse_value n s = Some (v, r) \<Longrightarrow> length r < length s"
    and ihv': "\<And>s v r m. parse_value n s = Some (v, r) \<Longrightarrow> length s - length r \<le> m
                 \<Longrightarrow> parse_value m s = Some (v, r)"
    and ihe: "\<And>s vs r. parse_elements n s = Some (vs, r) \<Longrightarrow> length r < length s"
    and ihe': "\<And>s vs r m. parse_elements n s = Some (vs, r) \<Longrightarrow> length s - length r \<le> m
                 \<Longrightarrow> parse_elements m s = Some (vs, r)"
    and ihm: "\<And>s kvs r. parse_members n s = Some (kvs, r) \<Longrightarrow> length r < length s"
    and ihm': "\<And>s kvs r m. parse_members n s = Some (kvs, r) \<Longrightarrow> length s - length r \<le> m
                 \<Longrightarrow> parse_members m s = Some (kvs, r)"
    by blast+
  have a: "length r < length s \<and> (\<forall>m. length s - length r \<le> m \<longrightarrow> parse_value m s = Some (v, r))"
    if p: "parse_value (Suc n) s = Some (v, r)" for s v r
  proof (cases "skip_ws s")
    case Nil
    with p show ?thesis by (simp add: parse_value.simps)
  next
    case (Cons c cs)
    have lcs: "length cs < length s" using Cons by (rule skip_ws_Cons_length)
    consider (obj) "c = CHR ''{''" | (arr) "c = CHR ''[''" | (scalar) "c \<noteq> CHR ''{''" "c \<noteq> CHR ''[''"
      by blast
    then show ?thesis
    proof cases
      case scalar
      from parse_value_scalar_shorter [OF p Cons scalar] have l: "length r < length s" .
      have "parse_value m s = Some (v, r)" if "length s - length r \<le> m" for m
      proof -
        from that l obtain m' where "m = Suc m'" by (cases m) auto
        with parse_value_scalar_fuel [OF Cons scalar, of n m'] p show ?thesis by simp
      qed
      with l show ?thesis by blast
    next
      case obj
      note shape = parse_value_open_object [OF Cons [unfolded obj]]
      show ?thesis
      proof (cases "skip_ws cs")
        case Nil
        with p shape [of n] show ?thesis by simp
      next
        case inner: (Cons d r0)
        have lr0: "length r0 < length cs" using inner by (rule skip_ws_Cons_length)
        show ?thesis
        proof (cases "d = CHR ''}''")
          case True
          with p shape [of n] inner have r: "r = r0" "v = JObj []" by simp_all
          have "parse_value m s = Some (v, r)" if "length s - length r \<le> m" for m
          proof -
            from that r lr0 lcs obtain m' where "m = Suc m'" by (cases m) auto
            with shape [of m'] inner True r show ?thesis by simp
          qed
          with r lr0 lcs show ?thesis by auto
        next
          case False
          with p shape [of n] inner obtain kvs where
            m: "parse_members n cs = Some (kvs, r)"
            and v: "v = JObj (foldl (\<lambda>obj kv. obj_set obj (fst kv) (snd kv)) [] kvs)"
            by (auto split: option.splits)
          from ihm [OF m] lcs have l: "length r < length s" by simp
          have "parse_value m s = Some (v, r)" if "length s - length r \<le> m" for m
          proof -
            from that l obtain m' where m': "m = Suc m'" by (cases m) auto
            with that lcs have "length cs - length r \<le> m'" by simp
            from ihm' [OF m this] shape [of m'] inner False v m' show ?thesis by simp
          qed
          with l show ?thesis by blast
        qed
      qed
    next
      case arr
      note shape = parse_value_open_array [OF Cons [unfolded arr]]
      show ?thesis
      proof (cases "skip_ws cs")
        case Nil
        with p shape [of n] show ?thesis by simp
      next
        case inner: (Cons d r0)
        have lr0: "length r0 < length cs" using inner by (rule skip_ws_Cons_length)
        show ?thesis
        proof (cases "d = CHR '']''")
          case True
          with p shape [of n] inner have r: "r = r0" "v = JArr []" by simp_all
          have "parse_value m s = Some (v, r)" if "length s - length r \<le> m" for m
          proof -
            from that r lr0 lcs obtain m' where "m = Suc m'" by (cases m) auto
            with shape [of m'] inner True r show ?thesis by simp
          qed
          with r lr0 lcs show ?thesis by auto
        next
          case False
          with p shape [of n] inner obtain vs where
            m: "parse_elements n cs = Some (vs, r)" and v: "v = JArr vs"
            by (auto split: option.splits)
          from ihe [OF m] lcs have l: "length r < length s" by simp
          have "parse_value m s = Some (v, r)" if "length s - length r \<le> m" for m
          proof -
            from that l obtain m' where m': "m = Suc m'" by (cases m) auto
            with that lcs have "length cs - length r \<le> m'" by simp
            from ihe' [OF m this] shape [of m'] inner False v m' show ?thesis by simp
          qed
          with l show ?thesis by blast
        qed
      qed
    qed
  qed
  have b: "length r < length s
      \<and> (\<forall>m. length s - length r \<le> m \<longrightarrow> parse_elements m s = Some (vs, r))"
    if p: "parse_elements (Suc n) s = Some (vs, r)" for s vs r
    using p
  proof (cases rule: parse_elements_cases)
    case (more v r1 r' vs')
    from ihv [OF more(1)] have l1: "length r1 < length s" .
    from skip_ws_Cons_length [OF more(2)] have l2: "length r' < length r1" .
    from ihe [OF more(3)] have l3: "length r < length r'" .
    have "parse_elements m s = Some (vs, r)" if "length s - length r \<le> m" for m
    proof -
      from that l1 l2 l3 obtain m' where m': "m = Suc m'" by (cases m) auto
      with that l1 l2 l3 have "length s - length r1 \<le> m'" "length r' - length r \<le> m'"
        by simp_all
      from parse_elements_more [OF ihv' [OF more(1) this(1)] more(2) ihe' [OF more(3) this(2)]]
        m' more(4) show ?thesis by simp
    qed
    with l1 l2 l3 show ?thesis by auto
  next
    case (last v r1)
    from ihv [OF last(1)] have l1: "length r1 < length s" .
    from skip_ws_Cons_length [OF last(2)] have l2: "length r < length r1" .
    have "parse_elements m s = Some (vs, r)" if "length s - length r \<le> m" for m
    proof -
      from that l1 l2 obtain m' where m': "m = Suc m'" by (cases m) auto
      with that l1 l2 have "length s - length r1 \<le> m'" by simp
      from parse_elements_last [OF ihv' [OF last(1) this] last(2)] m' last(3)
      show ?thesis by simp
    qed
    with l1 l2 show ?thesis by auto
  qed
  have c: "length r < length s
      \<and> (\<forall>m. length s - length r \<le> m \<longrightarrow> parse_members m s = Some (kvs, r))"
    if p: "parse_members (Suc n) s = Some (kvs, r)" for s kvs r
    using p
  proof (cases rule: parse_members_cases)
    case (more r0 k r1 r2 v r3 r4 kvs')
    from skip_ws_Cons_length [OF more(1)] have l0: "length r0 < length s" .
    from parse_chars_shorter [OF more(2)] have l1: "length r1 < length r0" .
    from skip_ws_Cons_length [OF more(3)] have l2: "length r2 < length r1" .
    from ihv [OF more(4)] have l3: "length r3 < length r2" .
    from skip_ws_Cons_length [OF more(5)] have l4: "length r4 < length r3" .
    from ihm [OF more(6)] have l5: "length r < length r4" .
    have "parse_members m s = Some (kvs, r)" if "length s - length r \<le> m" for m
    proof -
      from that l0 l1 l2 l3 l4 l5 obtain m' where m': "m = Suc m'" by (cases m) auto
      with that l0 l1 l2 l3 l4 l5
      have "length r2 - length r3 \<le> m'" "length r4 - length r \<le> m'"
        by simp_all
      from parse_members_more [OF more(1,2,3) ihv' [OF more(4) this(1)] more(5)
          ihm' [OF more(6) this(2)]] m' more(7)
      show ?thesis by simp
    qed
    with l0 l1 l2 l3 l4 l5 show ?thesis by auto
  next
    case (last r0 k r1 r2 v r3)
    from skip_ws_Cons_length [OF last(1)] have l0: "length r0 < length s" .
    from parse_chars_shorter [OF last(2)] have l1: "length r1 < length r0" .
    from skip_ws_Cons_length [OF last(3)] have l2: "length r2 < length r1" .
    from ihv [OF last(4)] have l3: "length r3 < length r2" .
    from skip_ws_Cons_length [OF last(5)] have l4: "length r < length r3" .
    have "parse_members m s = Some (kvs, r)" if "length s - length r \<le> m" for m
    proof -
      from that l0 l1 l2 l3 l4 obtain m' where m': "m = Suc m'" by (cases m) auto
      with that l0 l1 l2 l3 l4 have "length r2 - length r3 \<le> m'" by simp
      from parse_members_last [OF last(1,2,3) ihv' [OF last(4) this] last(5)] m' last(6)
      show ?thesis by simp
    qed
    with l0 l1 l2 l3 l4 show ?thesis by auto
  qed
  from a b c show ?case by blast
qed

text \<open>The fuel of \<open>JSON_parse\<close> is enough: a text that the parser accepts with any fuel
  is accepted with the fuel \<open>JSON_parse\<close> gives it.\<close>

lemma JSON_parse_fuel:
  assumes "parse_value n s = Some (v, r)" and "skip_ws r = []"
  shows "JSON_parse s = Some v"
proof -
  from parse_fuel [of n] assms(1)
  have "parse_value (Suc (length s)) s = Some (v, r)" by (metis diff_le_self le_SucI)
  with assms(2) show ?thesis by (simp add: JSON_parse_def)
qed

end
